theory Spec2Isabelle
  imports Complex_Main "HOL-Library.Word" "HOL-Library.Log_Nat"
begin

section \<open>Host-language values\<close>

text \<open>
  The program is the React component of \<open>src/App.tsx\<close>. Its numbers are JavaScript
  numbers, that is IEEE doubles. Sizes in kilobytes and the two bounds are integers
  (\<open>Math.round\<close>, \<open>parseInt\<close>) and are modelled as \<open>int\<close>.

  A double is modelled as the rational number it denotes. \<open>to_double x\<close> is the double
  nearest to \<open>x\<close> (53 significant bits, a tie going to the even one), which is also what
  a decimal literal such as \<open>0.1\<close> denotes, and \<open>double_add\<close>, \<open>double_sub\<close> and
  \<open>double_mul\<close> are the program's \<open>+\<close>, \<open>-\<close> and \<open>*\<close>: the exact result, rounded.
  Overflow and subnormal numbers are not modelled; the values of the program stay far
  from both. The scale factors and the pixel counts computed from them use these
  operations: their accumulated rounding decides how many steps the two scaling loops
  take and which canvas sizes they encode.

  The encoding quality of the bisection is kept exact (\<open>0.7\<close>,
  \<open>(minQuality + quality) / 2\<close>): rounding would move a quality in its last digit only.
\<close>

definition pow2 :: "int \<Rightarrow> rat" where
  "pow2 e = (if 0 \<le> e then 2 ^ nat e else 1 / 2 ^ nat (- e))"

definition round_half_even :: "rat \<Rightarrow> int" where
  "round_half_even y =
     (let n = \<lfloor>y\<rfloor>; r = y - rat_of_int n
      in if r < 1 / 2 then n else if 1 / 2 < r then n + 1 else if even n then n else n + 1)"

definition to_double :: "rat \<Rightarrow> rat" where
  \<comment> \<open>For \<open>x \<noteq> 0\<close>, \<open>e\<close> is the exponent with \<open>2^52 \<le> |x| / 2^e < 2^53\<close>: the quotient of
      two integers of bit lengths \<open>m\<close> and \<open>n\<close> lies between \<open>2^(m - n - 1)\<close> and
      \<open>2^(m - n + 1)\<close>.\<close>
  "to_double x =
     (if x = 0 then 0
      else
        let a = \<bar>x\<bar>;
            t = bitlen (fst (quotient_of a)) - bitlen (snd (quotient_of a)) - 53;
            e = (if pow2 53 \<le> a / pow2 t then t + 1 else t)
        in sgn x * rat_of_int (round_half_even (a / pow2 e)) * pow2 e)"

definition double_add :: "rat \<Rightarrow> rat \<Rightarrow> rat" where
  "double_add a b = to_double (a + b)"

definition double_sub :: "rat \<Rightarrow> rat \<Rightarrow> rat" where
  "double_sub a b = to_double (a - b)"

definition double_mul :: "rat \<Rightarrow> rat \<Rightarrow> rat" where
  "double_mul a b = to_double (a * b)"

definition Math_round :: "rat \<Rightarrow> int" where
  \<comment> \<open>\<open>Math.round\<close>: the nearest integer, a tie going up. Its argument in the program,
      an integer below \<open>2^53\<close> divided by 4 and by 1024, is exact in doubles.\<close>
  "Math_round x = \<lfloor>x + 1 / 2\<rfloor>"

definition Math_floor :: "rat \<Rightarrow> nat" where
  \<comment> \<open>\<open>Math.floor\<close> of a product of a pixel count and a scale factor, assigned to a
      canvas dimension (an unsigned long).\<close>
  "Math_floor x = nat \<lfloor>x\<rfloor>"

fun split_on :: "char \<Rightarrow> string \<Rightarrow> string list" where
  \<comment> \<open>\<open>s.split(c)\<close> for a one-character separator: the empty string gives one empty piece.\<close>
  "split_on c [] = [[]]"
| "split_on c (x # xs) =
     (if x = c then [] # split_on c xs
      else (case split_on c xs of
              [] \<Rightarrow> [[x]]
            | p # ps \<Rightarrow> (x # p) # ps))"

function show_nat :: "nat \<Rightarrow> string" where
  "show_nat n =
     (if n < 10 then [''0123456789'' ! n]
      else show_nat (n div 10) @ [''0123456789'' ! (n mod 10)])"
  by pat_completeness auto
termination
  by (relation "measure id") auto

declare show_nat.simps [simp del]

definition show_int :: "int \<Rightarrow> string" where
  \<comment> \<open>An integer inside a template literal: its decimal digits.\<close>
  "show_int i = (if i < 0 then CHR ''-'' # show_nat (nat (- i)) else show_nat (nat i))"

section \<open>The size estimator\<close>

definition calculateImageSize :: "string \<Rightarrow> int option" where
  \<comment> \<open>\<open>None\<close> is the TypeError raised by \<open>base64.length\<close> when the data URL has no comma
      (\<open>split(",")[1]\<close> is then \<open>undefined\<close>).\<close>
  "calculateImageSize dataUrl =
     (case split_on CHR '','' dataUrl of
        _ # base64 # _ \<Rightarrow> Some (Math_round (rat_of_nat (length base64) * 3 / 4 / 1024))
      | _ \<Rightarrow> None)"

subsection \<open>Data URLs of byte buffers\<close>

text \<open>
  The platform's \<open>canvas.toDataURL("image/jpeg", q)\<close> returns the encoded JPEG bytes as
  a data URL: a fixed header, a comma, and the bytes in base64 (RFC 4648, with padding).
\<close>

definition b64_alphabet :: string where
  "b64_alphabet = ''ABCDEFGHIJKLMNOPQRSTUVWXYZabcdefghijklmnopqrstuvwxyz0123456789+/''"

definition b64_char :: "nat \<Rightarrow> char" where
  "b64_char n = b64_alphabet ! (n mod 64)"

fun base64_encode :: "8 word list \<Rightarrow> string" where
  "base64_encode [] = []"
| "base64_encode [a] =
     [b64_char (unat a div 4), b64_char ((unat a mod 4) * 16), CHR ''='', CHR ''='']"
| "base64_encode [a, b] =
     [b64_char (unat a div 4), b64_char ((unat a mod 4) * 16 + unat b div 16),
      b64_char ((unat b mod 16) * 4), CHR ''='']"
| "base64_encode (a # b # c # r) =
     [b64_char (unat a div 4), b64_char ((unat a mod 4) * 16 + unat b div 16),
      b64_char ((unat b mod 16) * 4 + unat c div 64), b64_char (unat c mod 64)]
     @ base64_encode r"

definition jpeg_data_url :: "8 word list \<Rightarrow> string" where
  "jpeg_data_url bytes = ''data:image/jpeg;base64,'' @ base64_encode bytes"

definition estimateKB :: "8 word list \<Rightarrow> int" where
  \<comment> \<open>The estimator in the words of the specification (section 4.1):
      \<open>round(len(bytes) / 1024)\<close> on the encoded bytes themselves.\<close>
  "estimateKB bytes = Math_round (rat_of_nat (length bytes) / 1024)"

section \<open>Component state and platform\<close>

record app_state =
  imageFile :: "string option"
  preview :: "string option"
  minSize :: int
  maxSize :: int
  processedImage :: "string option"
  processedSize :: "int option"
  loading :: bool
  error :: "string option"

text \<open>
  \<open>imageFile\<close> is the state variable \<open>image\<close> (a \<open>File\<close> or \<open>null\<close>; the file is
  represented by its name). The platform record holds what the browser supplies for one
  run: the natural size of the decoded image, whether \<open>canvas.getContext("2d")\<close> yields
  a context, the data URL that drawing the image on a canvas of a given width and height
  and encoding it as JPEG at a given quality produces, and the message text of the
  engine's TypeError. The image is taken to decode (\<open>img.onload\<close> fires).
\<close>

record platform =
  img_width :: nat
  img_height :: nat
  getContext :: bool
  toDataURL :: "nat \<Rightarrow> nat \<Rightarrow> rat \<Rightarrow> string"
  typeErrorMessage :: string

datatype call = Decode | Encode nat nat rat

text \<open>
  The local variables of \<open>processImage\<close>. The variables declared inside a block
  (\<open>scaleFactor\<close>, \<open>minQuality\<close>, \<open>maxQuality\<close>) are fields that the block assigns on
  entry. \<open>calls\<close> is not a variable of the program: it records the calls made to the
  platform's decoder and encoder, in order.
\<close>

record vars =
  width :: nat
  height :: nat
  quality :: rat
  currentSize :: int
  dataUrl :: string
  attempts :: nat
  scaleFactor :: rat
  minQuality :: rat
  maxQuality :: rat
  calls :: "call list"

type_synonym thrown = "string \<times> call list"
  \<comment> \<open>the message of a thrown error, and the calls made before it\<close>

definition maxAttempts :: nat where
  "maxAttempts = 20"

definition canvasSize ::
  "platform \<Rightarrow> nat \<Rightarrow> nat \<Rightarrow> rat \<Rightarrow> call list \<Rightarrow> thrown + (string \<times> int \<times> call list)" where
  \<comment> \<open>\<open>d = canvas.toDataURL("image/jpeg", q); k = calculateImageSize(d)\<close> on a canvas of
      \<open>w\<close> by \<open>h\<close> pixels holding the image drawn at that size.\<close>
  "canvasSize P w h q cs =
     (let d = toDataURL P w h q; cs' = cs @ [Encode w h q]
      in case calculateImageSize d of
           None \<Rightarrow> Inl (typeErrorMessage P, cs')
         | Some k \<Rightarrow> Inr (d, k, cs'))"

section \<open>Stage 1: enlarging an undersized image\<close>

text \<open>
  The loop \<open>while (currentSize < minSize && scaleFactor < 3.0)\<close>. The result \<open>None\<close>
  stands for a loop that never ends, which a loop on doubles can do when started from a
  scale factor that adding 0.2 does not change.
\<close>

partial_function (option) enlargeLoop :: "platform \<Rightarrow> int \<Rightarrow> vars \<Rightarrow> (thrown + vars) option" where
  "enlargeLoop P minS v =
     (if currentSize v < minS \<and> scaleFactor v < 3 then
        (case canvasSize P
                (Math_floor (double_mul (rat_of_nat (width v))
                               (double_add (scaleFactor v) (to_double (1 / 5)))))
                (Math_floor (double_mul (rat_of_nat (height v))
                               (double_add (scaleFactor v) (to_double (1 / 5)))))
                1 (calls v) of
           Inl e \<Rightarrow> Some (Inl e)
         | Inr (d, k, cs) \<Rightarrow>
             (if k \<ge> minS
              then Some (Inr (v\<lparr>scaleFactor := double_add (scaleFactor v) (to_double (1 / 5)),
                                dataUrl := d, currentSize := k, calls := cs\<rparr>))
              else enlargeLoop P minS
                     (v\<lparr>scaleFactor := double_add (scaleFactor v) (to_double (1 / 5)),
                        dataUrl := d, currentSize := k, calls := cs\<rparr>)))
      else Some (Inr v))"

definition enlarge :: "platform \<Rightarrow> int \<Rightarrow> vars \<Rightarrow> thrown + vars" where
  \<comment> \<open>The block \<open>let scaleFactor = 1.0; while (...) {...}\<close>. Started at 1.0 the loop ends
      within ten steps on every platform (lemma \<open>enlargeLoop_returns\<close>), and this is its
      result.\<close>
  "enlarge P minS v = the (enlargeLoop P minS (v\<lparr>scaleFactor := 1\<rparr>))"

section \<open>Stage 2: quality bisection and forced shrink\<close>

definition probe :: "platform \<Rightarrow> vars \<Rightarrow> thrown + vars" where
  \<comment> \<open>The head of one iteration: count the attempt, encode at the current dimensions and
      quality, measure.\<close>
  "probe P v =
     (case canvasSize P (width v) (height v) (quality v) (calls v) of
        Inl e \<Rightarrow> Inl e
      | Inr (d, k, cs) \<Rightarrow>
          Inr (v\<lparr>attempts := attempts v + 1, dataUrl := d, currentSize := k, calls := cs\<rparr>))"

definition inRange :: "int \<Rightarrow> int \<Rightarrow> vars \<Rightarrow> bool" where
  "inRange minS maxS v = (currentSize v \<le> maxS \<and> currentSize v \<ge> minS)"

definition adjust :: "int \<Rightarrow> int \<Rightarrow> vars \<Rightarrow> vars" where
  \<comment> \<open>"Adjust quality using binary search".\<close>
  "adjust minS maxS v =
     (if currentSize v > maxS
      then v\<lparr>maxQuality := quality v, quality := (minQuality v + quality v) / 2\<rparr>
      else if currentSize v < minS
      then v\<lparr>minQuality := quality v, quality := (quality v + maxQuality v) / 2\<rparr>
      else v)"

definition stuck :: "int \<Rightarrow> vars \<Rightarrow> bool" where
  "stuck maxS v = (attempts v > 10 \<and> currentSize v > maxS)"

definition stuckReset :: "int \<Rightarrow> vars \<Rightarrow> vars" where
  \<comment> \<open>"Reduce dimensions by 10% and reset quality search".\<close>
  "stuckReset maxS v =
     (if stuck maxS v
      then v\<lparr>width := Math_floor (double_mul (rat_of_nat (width v)) (to_double (9 / 10))),
             height := Math_floor (double_mul (rat_of_nat (height v)) (to_double (9 / 10))),
             minQuality := 1 / 100, maxQuality := 7 / 10, quality := 3 / 10\<rparr>
      else v)"

definition bisectNext :: "platform \<Rightarrow> int \<Rightarrow> int \<Rightarrow> vars \<Rightarrow> vars option" where
  \<comment> \<open>One full iteration of the bisection loop from the state at the loop test: the
      state at the next loop test, or \<open>None\<close> when the loop ends here (the cap is
      reached, the size is within range, or the estimator throws).\<close>
  "bisectNext P minS maxS v =
     (if attempts v < maxAttempts then
        (case probe P v of
           Inl e \<Rightarrow> None
         | Inr v' \<Rightarrow>
             if inRange minS maxS v' then None
             else Some (stuckReset maxS (adjust minS maxS v')))
      else None)"

function bisect :: "platform \<Rightarrow> int \<Rightarrow> int \<Rightarrow> vars \<Rightarrow> thrown + vars" where
  "bisect P minS maxS v =
     (if attempts v < maxAttempts then
        (case probe P v of
           Inl e \<Rightarrow> Inl e
         | Inr v' \<Rightarrow>
             if inRange minS maxS v' then Inr v'
             else bisect P minS maxS (stuckReset maxS (adjust minS maxS v')))
      else Inr v)"
  by pat_completeness auto
termination
proof (relation "measure (\<lambda>(P, minS, maxS, v). maxAttempts - attempts v)", goal_cases)
  case 1
  show ?case by simp
next
  case (2 P minS maxS v v')
  then have "attempts (stuckReset maxS (adjust minS maxS v')) = attempts v + 1"
    by (auto simp: probe_def stuckReset_def adjust_def split: sum.splits)
  with 2 show ?case by simp
qed

fun loopHead :: "platform \<Rightarrow> int \<Rightarrow> int \<Rightarrow> vars \<Rightarrow> nat \<Rightarrow> vars option" where
  \<comment> \<open>The state at the loop test after \<open>n\<close> iterations that all went on to a next one.\<close>
  "loopHead P minS maxS v 0 = Some v"
| "loopHead P minS maxS v (Suc n) =
     (case loopHead P minS maxS v n of
        None \<Rightarrow> None
      | Some v' \<Rightarrow> bisectNext P minS maxS v')"

text \<open>
  The loop \<open>while (currentSize > maxSize && scaleFactor > 0.1)\<close> of the forced shrink,
  with \<open>None\<close> for a loop that never ends, as above.
\<close>

partial_function (option) shrinkLoop :: "platform \<Rightarrow> int \<Rightarrow> vars \<Rightarrow> (thrown + vars) option" where
  "shrinkLoop P maxS v =
     (if currentSize v > maxS \<and> scaleFactor v > to_double (1 / 10) then
        (case canvasSize P
                (Math_floor (double_mul (rat_of_nat (img_width P))
                               (double_sub (scaleFactor v) (to_double (1 / 10)))))
                (Math_floor (double_mul (rat_of_nat (img_height P))
                               (double_sub (scaleFactor v) (to_double (1 / 10)))))
                (1 / 10) (calls v) of
           Inl e \<Rightarrow> Some (Inl e)
         | Inr (d, k, cs) \<Rightarrow>
             (if k \<le> maxS
              then Some (Inr (v\<lparr>scaleFactor := double_sub (scaleFactor v) (to_double (1 / 10)),
                                width := Math_floor (double_mul (rat_of_nat (img_width P))
                                           (double_sub (scaleFactor v) (to_double (1 / 10)))),
                                height := Math_floor (double_mul (rat_of_nat (img_height P))
                                            (double_sub (scaleFactor v) (to_double (1 / 10)))),
                                dataUrl := d, currentSize := k, calls := cs\<rparr>))
              else shrinkLoop P maxS
                     (v\<lparr>scaleFactor := double_sub (scaleFactor v) (to_double (1 / 10)),
                        width := Math_floor (double_mul (rat_of_nat (img_width P))
                                   (double_sub (scaleFactor v) (to_double (1 / 10)))),
                        height := Math_floor (double_mul (rat_of_nat (img_height P))
                                    (double_sub (scaleFactor v) (to_double (1 / 10)))),
                        dataUrl := d, currentSize := k, calls := cs\<rparr>)))
      else Some (Inr v))"

definition shrink :: "platform \<Rightarrow> int \<Rightarrow> vars \<Rightarrow> thrown + vars" where
  \<comment> \<open>The block \<open>let scaleFactor = 0.9; while (...) {...}\<close>. Started at 0.9 the loop ends
      within nine steps on every platform (lemma \<open>shrinkLoop_returns\<close>), and this is its
      result.\<close>
  "shrink P maxS v = the (shrinkLoop P maxS (v\<lparr>scaleFactor := to_double (9 / 10)\<rparr>))"

definition bisectInit :: "vars \<Rightarrow> vars" where
  \<comment> \<open>"Binary search approach to find the right quality": the assignments before the loop.\<close>
  "bisectInit v = v\<lparr>minQuality := 1 / 1000, maxQuality := 100, quality := 7 / 10\<rparr>"

definition stage2 :: "platform \<Rightarrow> int \<Rightarrow> int \<Rightarrow> vars \<Rightarrow> thrown + vars" where
  "stage2 P minS maxS v =
     (case bisect P minS maxS (bisectInit v) of
        Inl e \<Rightarrow> Inl e
      | Inr v' \<Rightarrow>
          if currentSize v' > maxS then shrink P maxS v'
          else Inr v')"

section \<open>processImage\<close>

definition belowMinMessage :: "int \<Rightarrow> int \<Rightarrow> string" where
  "belowMinMessage minS k =
     ''Could not reach minimum size of '' @ show_int minS @ ''KB. Best result: ''
     @ show_int k @ ''KB''"

definition aboveMaxMessage :: "int \<Rightarrow> int \<Rightarrow> string" where
  "aboveMaxMessage maxS k =
     ''Could not get below maximum size of '' @ show_int maxS @ ''KB. Best result: ''
     @ show_int k @ ''KB''"

definition initialVars :: "platform \<Rightarrow> vars" where
  "initialVars P =
     \<lparr>width = img_width P, height = img_height P, quality = 9 / 10, currentSize = 0,
      dataUrl = [], attempts = 0, scaleFactor = 1, minQuality = 1 / 1000,
      maxQuality = 100, calls = [Decode]\<rparr>"

definition finish :: "app_state \<Rightarrow> vars \<Rightarrow> app_state \<times> call list" where
  \<comment> \<open>"Set the processed image" and "Provide feedback if we couldn't achieve the exact
      range".\<close>
  "finish st v =
     (st\<lparr>processedImage := Some (dataUrl v), processedSize := Some (currentSize v),
         error := (if currentSize v < minSize st
                   then Some (belowMinMessage (minSize st) (currentSize v))
                   else if currentSize v > maxSize st
                   then Some (aboveMaxMessage (maxSize st) (currentSize v))
                   else error st)\<rparr>,
      calls v)"

definition reduceOrKeep ::
  "platform \<Rightarrow> app_state \<Rightarrow> string \<Rightarrow> int \<Rightarrow> vars \<Rightarrow> thrown + (app_state \<times> call list)" where
  \<comment> \<open>The statement \<open>if (originalSize > maxSize) {...} else {...}\<close> and what follows it.\<close>
  "reduceOrKeep P st originalDataUrl originalSize v =
     (if originalSize > maxSize st then
        (case stage2 P (minSize st) (maxSize st) v of
           Inl e \<Rightarrow> Inl e
         | Inr v' \<Rightarrow> Inr (finish st v'))
      else Inr (finish st (v\<lparr>dataUrl := originalDataUrl, currentSize := originalSize\<rparr>)))"

definition tryBlock :: "platform \<Rightarrow> app_state \<Rightarrow> thrown + (app_state \<times> call list)" where
  "tryBlock P st =
     (let v = initialVars P in
      if \<not> getContext P then Inl (''Could not get canvas context'', calls v)
      else
        (case canvasSize P (width v) (height v) 1 (calls v) of
           Inl e \<Rightarrow> Inl e
         | Inr (originalDataUrl, originalSize, cs) \<Rightarrow>
             if originalSize < minSize st then
               (case enlarge P (minSize st) (v\<lparr>calls := cs\<rparr>) of
                  Inl e \<Rightarrow> Inl e
                | Inr v' \<Rightarrow>
                    if currentSize v' < minSize st then
                      Inr (st\<lparr>processedImage := Some (dataUrl v'),
                              processedSize := Some (currentSize v'),
                              error := Some (belowMinMessage (minSize st) (currentSize v')),
                              loading := False\<rparr>,
                           calls v')
                    else reduceOrKeep P st originalDataUrl originalSize v')
             else reduceOrKeep P st originalDataUrl originalSize (v\<lparr>calls := cs\<rparr>)))"

definition processImage :: "platform \<Rightarrow> app_state \<Rightarrow> app_state \<times> call list" where
  \<comment> \<open>The new component state and the platform calls made. \<open>!preview\<close> holds for
      \<open>null\<close> and for the empty string.\<close>
  "processImage P st =
     (if imageFile st = None \<or> preview st = None \<or> preview st = Some [] then
        (st\<lparr>error := Some ''Please upload an image first''\<rparr>, [])
      else if minSize st \<ge> maxSize st then
        (st\<lparr>error := Some ''Minimum size must be less than maximum size''\<rparr>, [])
      else
        (case tryBlock P (st\<lparr>loading := True, error := None\<rparr>) of
           Inl (msg, cs) \<Rightarrow>
             (st\<lparr>loading := False, error := Some (''Error processing image: '' @ msg)\<rparr>, cs)
         | Inr (st', cs) \<Rightarrow> (st'\<lparr>loading := False\<rparr>, cs)))"

section \<open>Notions used in the statements\<close>

definition rejected :: "app_state \<Rightarrow> bool" where
  \<comment> \<open>The two guards at the head of \<open>processImage\<close>: no upload, or an empty range.\<close>
  "rejected st =
     (imageFile st = None \<or> preview st = None \<or> preview st = Some [] \<or> minSize st \<ge> maxSize st)"

primrec enlargeScale :: "nat \<Rightarrow> rat" where
  \<comment> \<open>The scale factor of the enlargement after \<open>k\<close> steps.\<close>
  "enlargeScale 0 = 1"
| "enlargeScale (Suc k) = double_add (enlargeScale k) (to_double (1 / 5))"

primrec shrinkScale :: "nat \<Rightarrow> rat" where
  \<comment> \<open>The scale factor of the forced shrink after \<open>k\<close> steps.\<close>
  "shrinkScale 0 = to_double (9 / 10)"
| "shrinkScale (Suc k) = double_sub (shrinkScale k) (to_double (1 / 10))"

definition consistent :: "vars \<Rightarrow> bool" where
  \<comment> \<open>The current size is what the estimator returns for the current data URL.\<close>
  "consistent v = (calculateImageSize (dataUrl v) = Some (currentSize v))"

definition bracket :: "vars \<Rightarrow> rat" where
  \<comment> \<open>The width of the bisection interval.\<close>
  "bracket v = maxQuality v - minQuality v"

definition bracketed :: "vars \<Rightarrow> bool" where
  \<comment> \<open>The current quality lies within the bisection interval.\<close>
  "bracketed v = (minQuality v \<le> quality v \<and> quality v \<le> maxQuality v)"

definition feedback :: "app_state \<Rightarrow> int \<Rightarrow> string option" where
  \<comment> \<open>The message that goes with a final size of \<open>k\<close> kilobytes.\<close>
  "feedback st k =
     (if k < minSize st then Some (belowMinMessage (minSize st) k)
      else if k > maxSize st then Some (aboveMaxMessage (maxSize st) k)
      else error st)"

definition reports :: "app_state \<Rightarrow> app_state \<Rightarrow> vars \<Rightarrow> bool" where
  "reports st st' u =
     (consistent u \<and> processedImage st' = Some (dataUrl u)
      \<and> processedSize st' = Some (currentSize u)
      \<and> error st' = feedback st (currentSize u))"

section \<open>Sample inputs\<close>

text \<open>
  Byte buffers of a given length, the data URL of a buffer of \<open>k\<close> kilobytes, a
  component state with an uploaded photo and given bounds, and platforms whose encoder
  output depends on the pixel count, on nothing, on the quality alone, or on both. The
  encoder by quality treats a quality above 1 as the browser does (it falls back to its
  default quality).
\<close>

definition zero_bytes :: "nat \<Rightarrow> 8 word list" where
  "zero_bytes n = replicate n 0"

definition kb_url :: "nat \<Rightarrow> string" where
  "kb_url k = jpeg_data_url (zero_bytes (1024 * k))"

definition demo_state :: "int \<Rightarrow> int \<Rightarrow> app_state" where
  "demo_state lo hi =
     \<lparr>imageFile = Some ''photo.jpg'', preview = Some ''data:image/jpeg;base64,/9j/4AAQ'',
      minSize = lo, maxSize = hi, processedImage = None, processedSize = None,
      loading = False, error = None\<rparr>"

definition demo_platform :: "nat \<Rightarrow> nat \<Rightarrow> (nat \<Rightarrow> nat \<Rightarrow> rat \<Rightarrow> string) \<Rightarrow> platform" where
  "demo_platform w h enc =
     \<lparr>img_width = w, img_height = h, getContext = True, toDataURL = enc,
      typeErrorMessage = ''base64 is undefined''\<rparr>"

definition enc_by_area :: "nat \<Rightarrow> nat \<Rightarrow> rat \<Rightarrow> string" where
  "enc_by_area w h q = kb_url (w * h div 1000)"

definition enc_constant :: "nat \<Rightarrow> nat \<Rightarrow> nat \<Rightarrow> rat \<Rightarrow> string" where
  "enc_constant k w h q = kb_url k"

definition enc_by_quality :: "nat \<Rightarrow> nat \<Rightarrow> rat \<Rightarrow> string" where
  "enc_by_quality w h q = (if q = 1 then kb_url 300 else if 1 < q then kb_url 110 else kb_url 55)"

definition enc_browser :: "nat \<Rightarrow> nat \<Rightarrow> rat \<Rightarrow> string" where
  \<comment> \<open>One byte per pixel at quality 1.0, in proportion to the quality below it; a canvas
      without pixels gives the data URL \<open>data:,\<close>, as browsers do.\<close>
  "enc_browser w h q =
     (if w = 0 \<or> h = 0 then ''data:,''
      else kb_url (nat \<lfloor>rat_of_nat (w * h) * q / 1000\<rfloor> + 1))"

definition large_photo :: platform where
  "large_photo = demo_platform 4000 3000 enc_browser"

definition incompressible :: platform where
  "incompressible = demo_platform 1000 1000 (enc_constant 300)"

section \<open>Evaluating the host-language operations\<close>

lemma floor_rat_numeral [simp]:
  "\<lfloor>numeral a / numeral b :: rat\<rfloor> = numeral a div numeral b"
  using floor_divide_of_int_eq [of "numeral a" "numeral b", where ?'a = rat] by simp

lemma split_on_nonempty: "split_on c s \<noteq> []"
  by (induction s) (auto split: list.splits)

lemma split_on_no_sep: "c \<notin> set s \<Longrightarrow> split_on c s = [s]"
  by (induction s) auto

lemma split_on_append_sep: "c \<notin> set p \<Longrightarrow> split_on c (p @ c # r) = p # split_on c r"
  by (induction p) auto

lemma split_on_second:
  "c \<in> set s \<Longrightarrow> \<exists>p b bs. split_on c s = p # b # bs"
proof -
  assume "c \<in> set s"
  then obtain p r where s: "s = p @ c # r" and "c \<notin> set p"
    by (meson split_list_first)
  then have "split_on c s = p # split_on c r" by (simp add: split_on_append_sep)
  moreover obtain b bs where "split_on c r = b # bs"
    using split_on_nonempty [of c r] by (cases "split_on c r") auto
  ultimately show ?thesis by auto
qed

lemma calculateImageSize_no_comma:
  "CHR '','' \<notin> set d \<Longrightarrow> calculateImageSize d = None"
  by (simp add: calculateImageSize_def split_on_no_sep)

lemma calculateImageSize_comma:
  "CHR '','' \<in> set d \<Longrightarrow> \<exists>k. calculateImageSize d = Some k"
  using split_on_second [of "CHR '',''" d] by (auto simp: calculateImageSize_def)

lemma calculateImageSize_payload:
  "CHR '','' \<notin> set p \<Longrightarrow> CHR '','' \<notin> set b \<Longrightarrow>
   calculateImageSize (p @ CHR '','' # b) = Some (Math_round (rat_of_nat (length b) * 3 / 4 / 1024))"
  by (simp add: calculateImageSize_def split_on_append_sep split_on_no_sep)

lemma Math_round_nonneg: "0 \<le> x \<Longrightarrow> 0 \<le> Math_round x"
  by (simp add: Math_round_def)

lemma calculateImageSize_nonneg: "calculateImageSize d = Some k \<Longrightarrow> 0 \<le> k"
  by (auto simp: calculateImageSize_def Math_round_nonneg split: list.splits)

lemma b64_char_in: "b64_char n \<in> set b64_alphabet"
  unfolding b64_char_def by (rule nth_mem) (simp add: b64_alphabet_def)

lemma b64_char_not_comma: "b64_char n \<noteq> CHR '',''"
proof
  assume "b64_char n = CHR '',''"
  then have "CHR '','' \<in> set b64_alphabet" using b64_char_in [of n] by simp
  then show False by (simp add: b64_alphabet_def)
qed

lemma base64_no_comma: "CHR '','' \<notin> set (base64_encode bs)"
  by (induction bs rule: base64_encode.induct) (use b64_char_not_comma in \<open>auto dest: sym\<close>)

lemma base64_length: "length (base64_encode bs) = 4 * ((length bs + 2) div 3)"
proof (induction bs rule: base64_encode.induct)
  case (4 a b c r)
  have "(length (a # b # c # r) + 2) div 3 = (length r + 2) div 3 + 1"
    by simp
  with 4 show ?case by simp
qed simp_all

lemma jpeg_data_url_size:
  "calculateImageSize (jpeg_data_url bs) =
     Some (Math_round (rat_of_nat (4 * ((length bs + 2) div 3)) * 3 / 4 / 1024))"
proof -
  have "jpeg_data_url bs = ''data:image/jpeg;base64'' @ CHR '','' # base64_encode bs"
    by (simp add: jpeg_data_url_def)
  then show ?thesis
    using calculateImageSize_payload [of "''data:image/jpeg;base64''" "base64_encode bs"]
    by (simp add: base64_no_comma base64_length)
qed

lemma kb_round:
  assumes "1024 * k \<le> m" "m \<le> 1024 * k + 2"
  shows "Math_round (rat_of_nat m / 1024) = int k"
proof -
  have "rat_of_nat m / 1024 + 1 / 2 = rat_of_int (int (2 * m + 1024)) / rat_of_int 2048"
    by simp
  then have "\<lfloor>(rat_of_nat m / 1024 + 1 / 2)\<rfloor> = \<lfloor>rat_of_int (int (2 * m + 1024)) / rat_of_int 2048\<rfloor>"
    by (rule arg_cong)
  also have "\<dots> = int (2 * m + 1024) div 2048"
    by (simp only: floor_divide_of_int_eq)
  also have "\<dots> = int k" using assms by simp
  finally show ?thesis by (simp add: Math_round_def)
qed

lemma length_zero_bytes: "length (zero_bytes n) = n"
  by (simp add: zero_bytes_def)

lemma jpeg_data_url_size':
  "calculateImageSize (jpeg_data_url bs) =
     Some (Math_round (rat_of_nat (3 * ((length bs + 2) div 3)) / 1024))"
  by (simp add: jpeg_data_url_size)

lemma kb_url_size: "calculateImageSize (kb_url k) = Some (int k)"
proof -
  have "m \<le> 3 * ((m + 2) div 3)" for m :: nat by presburger
  then have "1024 * k \<le> 3 * ((1024 * k + 2) div 3)" .
  moreover have "3 * ((m + 2) div 3) \<le> m + 2" for m :: nat by presburger
  then have "3 * ((1024 * k + 2) div 3) \<le> 1024 * k + 2" .
  ultimately have "Math_round (rat_of_nat (3 * ((1024 * k + 2) div 3)) / 1024) = int k"
    by (rule kb_round)
  then show ?thesis by (simp only: kb_url_def jpeg_data_url_size' length_zero_bytes)
qed

lemma kb_url_comma: "CHR '','' \<in> set (kb_url k)"
  by (simp add: kb_url_def jpeg_data_url_def)

section \<open>Double arithmetic at the constants of the program\<close>

lemma double_literals:
  "to_double (1 / 5) = 3602879701896397 / 18014398509481984"
  "to_double (1 / 10) = 3602879701896397 / 36028797018963968"
  "to_double (9 / 10) = 8106479329266893 / 9007199254740992"
  by code_simp+

lemma enlarge_steps:
  "double_add 1 (3602879701896397 / 18014398509481984) = 5404319552844595 / 4503599627370496"
  "double_add (5404319552844595 / 4503599627370496) (3602879701896397 / 18014398509481984) = 3152519739159347 / 2251799813685248"
  "double_add (3152519739159347 / 2251799813685248) (3602879701896397 / 18014398509481984) = 7205759403792793 / 4503599627370496"
  "double_add (7205759403792793 / 4503599627370496) (3602879701896397 / 18014398509481984) = 2026619832316723 / 1125899906842624"
  "double_add (2026619832316723 / 1125899906842624) (3602879701896397 / 18014398509481984) = 9007199254740991 / 4503599627370496"
  "double_add (9007199254740991 / 4503599627370496) (3602879701896397 / 18014398509481984) = 4953959590107545 / 2251799813685248"
  "double_add (4953959590107545 / 2251799813685248) (3602879701896397 / 18014398509481984) = 5404319552844595 / 2251799813685248"
  "double_add (5404319552844595 / 2251799813685248) (3602879701896397 / 18014398509481984) = 5854679515581645 / 2251799813685248"
  "double_add (5854679515581645 / 2251799813685248) (3602879701896397 / 18014398509481984) = 6305039478318695 / 2251799813685248"
  "double_add (6305039478318695 / 2251799813685248) (3602879701896397 / 18014398509481984) = 6755399441055745 / 2251799813685248"
  by code_simp+

lemma shrink_steps:
  "double_sub (8106479329266893 / 9007199254740992) (3602879701896397 / 36028797018963968) = 3602879701896397 / 4503599627370496"
  "double_sub (3602879701896397 / 4503599627370496) (3602879701896397 / 36028797018963968) = 6305039478318695 / 9007199254740992"
  "double_sub (6305039478318695 / 9007199254740992) (3602879701896397 / 36028797018963968) = 1351079888211149 / 2251799813685248"
  "double_sub (1351079888211149 / 2251799813685248) (3602879701896397 / 36028797018963968) = 4503599627370497 / 9007199254740992"
  "double_sub (4503599627370497 / 9007199254740992) (3602879701896397 / 36028797018963968) = 1801439850948199 / 4503599627370496"
  "double_sub (1801439850948199 / 4503599627370496) (3602879701896397 / 36028797018963968) = 2702159776422299 / 9007199254740992"
  "double_sub (2702159776422299 / 9007199254740992) (3602879701896397 / 36028797018963968) = 7205759403792799 / 36028797018963968"
  "double_sub (7205759403792799 / 36028797018963968) (3602879701896397 / 36028797018963968) = 1801439850948201 / 18014398509481984"
  "double_sub (1801439850948201 / 18014398509481984) (3602879701896397 / 36028797018963968) = 5 / 36028797018963968"
  by code_simp+

lemma shrink_pixels:
  "double_mul 4000 (3602879701896397 / 4503599627370496) = 3200"
  "double_mul 3000 (3602879701896397 / 4503599627370496) = 2400"
  "double_mul 4000 (6305039478318695 / 9007199254740992) = 6157265115545601 / 2199023255552"
  "double_mul 3000 (6305039478318695 / 9007199254740992) = 2100"
  "double_mul 4000 (1351079888211149 / 2251799813685248) = 5277655813324801 / 2199023255552"
  "double_mul 3000 (1351079888211149 / 2251799813685248) = 7916483719987201 / 4398046511104"
  "double_mul 4000 (4503599627370497 / 9007199254740992) = 4398046511104001 / 2199023255552"
  "double_mul 3000 (4503599627370497 / 9007199254740992) = 6597069766656001 / 4398046511104"
  "double_mul 4000 (1801439850948199 / 4503599627370496) = 3518437208883201 / 2199023255552"
  "double_mul 3000 (1801439850948199 / 4503599627370496) = 2638827906662401 / 2199023255552"
  "double_mul 4000 (2702159776422299 / 9007199254740992) = 5277655813324803 / 4398046511104"
  "double_mul 3000 (2702159776422299 / 9007199254740992) = 1979120929996801 / 2199023255552"
  "double_mul 4000 (7205759403792799 / 36028797018963968) = 7036874417766405 / 8796093022208"
  "double_mul 3000 (7205759403792799 / 36028797018963968) = 1319413953331201 / 2199023255552"
  "double_mul 4000 (1801439850948201 / 18014398509481984) = 3518437208883205 / 8796093022208"
  "double_mul 3000 (1801439850948201 / 18014398509481984) = 659706976665601 / 2199023255552"
  "double_mul 4000 (5 / 36028797018963968) = 625 / 1125899906842624"
  "double_mul 3000 (5 / 36028797018963968) = 1875 / 4503599627370496"
  by code_simp+

lemma reset_pixels:
  "double_mul 4000 (8106479329266893 / 9007199254740992) = 3600"
  "double_mul 3600 (8106479329266893 / 9007199254740992) = 3240"
  "double_mul 3240 (8106479329266893 / 9007199254740992) = 2916"
  "double_mul 2916 (8106479329266893 / 9007199254740992) = 5771116631870669 / 2199023255552"
  "double_mul 2624 (8106479329266893 / 9007199254740992) = 5193213320311603 / 2199023255552"
  "double_mul 2361 (8106479329266893 / 9007199254740992) = 4672704515722445 / 2199023255552"
  "double_mul 2124 (8106479329266893 / 9007199254740992) = 8407305710626407 / 4398046511104"
  "double_mul 1911 (8106479329266893 / 9007199254740992) = 3782100097223885 / 2199023255552"
  "double_mul 1719 (8106479329266893 / 9007199254740992) = 6804217757328999 / 4398046511104"
  "double_mul 1547 (8106479329266893 / 9007199254740992) = 6123400157410099 / 4398046511104"
  "double_mul 3000 (8106479329266893 / 9007199254740992) = 2700"
  "double_mul 2700 (8106479329266893 / 9007199254740992) = 2430"
  "double_mul 2430 (8106479329266893 / 9007199254740992) = 2187"
  "double_mul 2187 (8106479329266893 / 9007199254740992) = 8656674947806003 / 4398046511104"
  "double_mul 1968 (8106479329266893 / 9007199254740992) = 7789819980467405 / 4398046511104"
  "double_mul 1771 (8106479329266893 / 9007199254740992) = 3505023167024333 / 2199023255552"
  "double_mul 1593 (8106479329266893 / 9007199254740992) = 6305479282969805 / 4398046511104"
  "double_mul 1433 (8106479329266893 / 9007199254740992) = 5672160585370829 / 4398046511104"
  "double_mul 1289 (8106479329266893 / 9007199254740992) = 5102173757531751 / 4398046511104"
  "double_mul 1160 (8106479329266893 / 9007199254740992) = 1044"
  by code_simp+

lemma enlarge_pixels:
  "double_mul 100 (5404319552844595 / 4503599627370496) = 120"
  "double_mul 100 (2026619832316723 / 1125899906842624) = 6333186975989759 / 35184372088832"
  "double_mul 100 (9007199254740991 / 4503599627370496) = 7036874417766399 / 35184372088832"
  "double_mul 100 (4953959590107545 / 2251799813685248) = 7740561859543039 / 35184372088832"
  by code_simp+

section \<open>The three loops\<close>

declare bisect.simps [simp del]

lemma canvasSize_Inr:
  "canvasSize P w h q cs = Inr (d, k, cs') \<Longrightarrow>
   d = toDataURL P w h q \<and> calculateImageSize d = Some k \<and> cs' = cs @ [Encode w h q]"
  by (auto simp: canvasSize_def Let_def split: option.splits)

lemma canvasSize_consistent:
  "canvasSize P w h q cs = Inr (d, k, cs') \<Longrightarrow> calculateImageSize d = Some k"
  by (auto simp: canvasSize_def Let_def split: option.splits)

lemma canvasSize_ok:
  "CHR '','' \<in> set (toDataURL P w h q) \<Longrightarrow>
   \<exists>k. canvasSize P w h q cs = Inr (toDataURL P w h q, k, cs @ [Encode w h q])"
  using calculateImageSize_comma [of "toDataURL P w h q"]
  by (auto simp: canvasSize_def Let_def)

lemma enlarge_scale_values:
  "enlargeScale 4 = 2026619832316723 / 1125899906842624"
  "enlargeScale 5 = 9007199254740991 / 4503599627370496"
  "enlargeScale 6 = 4953959590107545 / 2251799813685248"
  by (simp_all add: eval_nat_numeral double_literals enlarge_steps)

lemma enlarge_pixel_counts:
  "Math_floor (double_mul 100 (enlargeScale 4)) = 179"
  "Math_floor (double_mul 100 (enlargeScale 5)) = 199"
  "Math_floor (double_mul 100 (enlargeScale 6)) = 219"
  by (simp_all add: enlarge_scale_values enlarge_pixels Math_floor_def)

lemma shrink_scale_values:
  "shrinkScale 8 = 1801439850948201 / 18014398509481984"
  "shrinkScale 9 = 5 / 36028797018963968"
  by (simp_all add: eval_nat_numeral double_literals shrink_steps)

lemma enlargeScale_end: "\<not> enlargeScale 10 < 3"
  by (simp add: eval_nat_numeral double_literals enlarge_steps)

lemma shrinkScale_end: "\<not> to_double (1 / 10) < shrinkScale 9"
  by (simp add: eval_nat_numeral double_literals shrink_steps)

lemma enlargeLoop_from:
  "scaleFactor v = enlargeScale k \<Longrightarrow> k \<le> 10 \<Longrightarrow>
   \<exists>r. enlargeLoop P minS v = Some r
     \<and> (\<forall>u. r = Inr u \<longrightarrow>
           attempts u = attempts v
           \<and> (consistent v \<or> (currentSize v < minS \<and> scaleFactor v < 3) \<longrightarrow> consistent u))
     \<and> ((\<forall>w h q. CHR '','' \<in> set (toDataURL P w h q)) \<longrightarrow> (\<exists>u. r = Inr u))"
proof (induction "10 - k" arbitrary: k v)
  case 0
  then have "\<not> scaleFactor v < 3" using enlargeScale_end by simp
  moreover from this have "enlargeLoop P minS v = Some (Inr v)"
    by (subst enlargeLoop.simps) simp
  ultimately show ?case by simp
next
  case (Suc n)
  show ?case
  proof (cases "currentSize v < minS \<and> scaleFactor v < 3")
    case False
    then have "enlargeLoop P minS v = Some (Inr v)"
      by (subst enlargeLoop.simps) auto
    with False show ?thesis by auto
  next
    case True
    let ?sf = "double_add (scaleFactor v) (to_double (1 / 5))"
    let ?w = "Math_floor (double_mul (rat_of_nat (width v)) ?sf)"
    let ?h = "Math_floor (double_mul (rat_of_nat (height v)) ?sf)"
    show ?thesis
    proof (cases "canvasSize P ?w ?h 1 (calls v)")
      case (Inl e)
      with True have "enlargeLoop P minS v = Some (Inl e)"
        by (subst enlargeLoop.simps) simp
      moreover have "\<not> (\<forall>w h q. CHR '','' \<in> set (toDataURL P w h q))"
        using canvasSize_ok [of P ?w ?h 1 "calls v"] Inl by auto
      ultimately show ?thesis by simp
    next
      case (Inr x)
      obtain d j cs where c: "canvasSize P ?w ?h 1 (calls v) = Inr (d, j, cs)"
        using Inr by (cases x) auto
      let ?v = "v\<lparr>scaleFactor := ?sf, dataUrl := d, currentSize := j, calls := cs\<rparr>"
      have cons: "consistent ?v"
        using canvasSize_consistent [OF c] by (simp add: consistent_def)
      show ?thesis
      proof (cases "j \<ge> minS")
        case True
        with \<open>currentSize v < minS \<and> scaleFactor v < 3\<close> c
        have "enlargeLoop P minS v = Some (Inr ?v)"
          by (subst enlargeLoop.simps) simp
        with cons show ?thesis by simp
      next
        case False
        with \<open>currentSize v < minS \<and> scaleFactor v < 3\<close> c
        have eq: "enlargeLoop P minS v = enlargeLoop P minS ?v"
          by (subst enlargeLoop.simps) simp
        have "n = 10 - Suc k" and "Suc k \<le> 10" using Suc.hyps(2) by simp_all
        moreover have "scaleFactor ?v = enlargeScale (Suc k)" using Suc.prems(1) by simp
        ultimately obtain r where r: "enlargeLoop P minS ?v = Some r"
          and ru: "\<forall>u. r = Inr u \<longrightarrow> attempts u = attempts ?v
                 \<and> (consistent ?v \<or> (currentSize ?v < minS \<and> scaleFactor ?v < 3) \<longrightarrow> consistent u)"
          and rw: "(\<forall>w h q. CHR '','' \<in> set (toDataURL P w h q)) \<longrightarrow> (\<exists>u. r = Inr u)"
          using Suc.hyps(1) [of "Suc k" ?v] by blast
        from ru cons have "\<forall>u. r = Inr u \<longrightarrow> attempts u = attempts v \<and> consistent u"
          by simp
        with r rw show ?thesis unfolding eq by blast
      qed
    qed
  qed
qed

lemma enlargeLoop_returns:
  "enlargeLoop P minS (v\<lparr>scaleFactor := 1\<rparr>) = Some (enlarge P minS v)"
  using enlargeLoop_from [of "v\<lparr>scaleFactor := 1\<rparr>" 0 P minS]
  by (auto simp: enlarge_def)

lemma enlarge_consistent:
  assumes "enlarge P minS v = Inr v'" and "consistent v \<or> currentSize v < minS"
  shows "consistent v'"
proof -
  from assms(2) have "consistent (v\<lparr>scaleFactor := 1\<rparr>)
      \<or> (currentSize (v\<lparr>scaleFactor := 1\<rparr>) < minS \<and> scaleFactor (v\<lparr>scaleFactor := 1\<rparr>) < 3)"
    by (auto simp: consistent_def)
  with enlargeLoop_from [of "v\<lparr>scaleFactor := 1\<rparr>" 0 P minS] assms(1) show ?thesis
    by (auto simp: enlarge_def)
qed

lemma enlarge_attempts: "enlarge P minS v = Inr v' \<Longrightarrow> attempts v' = attempts v"
  using enlargeLoop_from [of "v\<lparr>scaleFactor := 1\<rparr>" 0 P minS]
  by (auto simp: enlarge_def)

lemma enlarge_ok:
  "\<forall>w h q. CHR '','' \<in> set (toDataURL P w h q) \<Longrightarrow> \<exists>v'. enlarge P minS v = Inr v'"
  using enlargeLoop_from [of "v\<lparr>scaleFactor := 1\<rparr>" 0 P minS]
  by (auto simp: enlarge_def)

lemma shrinkLoop_from:
  "scaleFactor v = shrinkScale k \<Longrightarrow> k \<le> 9 \<Longrightarrow>
   \<exists>r. shrinkLoop P maxS v = Some r
     \<and> (\<forall>u. r = Inr u \<longrightarrow> (consistent v \<longrightarrow> consistent u))
     \<and> ((\<forall>w h q. CHR '','' \<in> set (toDataURL P w h q)) \<longrightarrow> (\<exists>u. r = Inr u))"
proof (induction "9 - k" arbitrary: k v)
  case 0
  then have "\<not> to_double (1 / 10) < scaleFactor v" using shrinkScale_end by simp
  moreover from this have "shrinkLoop P maxS v = Some (Inr v)"
    by (subst shrinkLoop.simps) simp
  ultimately show ?case by simp
next
  case (Suc n)
  show ?case
  proof (cases "currentSize v > maxS \<and> scaleFactor v > to_double (1 / 10)")
    case False
    then have "shrinkLoop P maxS v = Some (Inr v)"
      by (subst shrinkLoop.simps) auto
    then show ?thesis by auto
  next
    case True
    let ?sf = "double_sub (scaleFactor v) (to_double (1 / 10))"
    let ?w = "Math_floor (double_mul (rat_of_nat (img_width P)) ?sf)"
    let ?h = "Math_floor (double_mul (rat_of_nat (img_height P)) ?sf)"
    show ?thesis
    proof (cases "canvasSize P ?w ?h (1 / 10) (calls v)")
      case (Inl e)
      with True have "shrinkLoop P maxS v = Some (Inl e)"
        by (subst shrinkLoop.simps) simp
      moreover have "\<not> (\<forall>w h q. CHR '','' \<in> set (toDataURL P w h q))"
        using canvasSize_ok [of P ?w ?h "1 / 10" "calls v"] Inl by auto
      ultimately show ?thesis by simp
    next
      case (Inr x)
      obtain d j cs where c: "canvasSize P ?w ?h (1 / 10) (calls v) = Inr (d, j, cs)"
        using Inr by (cases x) auto
      let ?v = "v\<lparr>scaleFactor := ?sf, width := ?w, height := ?h, dataUrl := d,
                  currentSize := j, calls := cs\<rparr>"
      have cons: "consistent ?v"
        using canvasSize_consistent [OF c] by (simp add: consistent_def)
      show ?thesis
      proof (cases "j \<le> maxS")
        case True
        with \<open>currentSize v > maxS \<and> scaleFactor v > to_double (1 / 10)\<close> c
        have "shrinkLoop P maxS v = Some (Inr ?v)"
          by (subst shrinkLoop.simps) simp
        with cons show ?thesis by simp
      next
        case False
        with \<open>currentSize v > maxS \<and> scaleFactor v > to_double (1 / 10)\<close> c
        have eq: "shrinkLoop P maxS v = shrinkLoop P maxS ?v"
          by (subst shrinkLoop.simps) simp
        have "n = 9 - Suc k" and "Suc k \<le> 9" using Suc.hyps(2) by simp_all
        moreover have "scaleFactor ?v = shrinkScale (Suc k)" using Suc.prems(1) by simp
        ultimately obtain r where r: "shrinkLoop P maxS ?v = Some r"
          and ru: "\<forall>u. r = Inr u \<longrightarrow> (consistent ?v \<longrightarrow> consistent u)"
          and rw: "(\<forall>w h q. CHR '','' \<in> set (toDataURL P w h q)) \<longrightarrow> (\<exists>u. r = Inr u)"
          using Suc.hyps(1) [of "Suc k" ?v] by blast
        from ru cons have "\<forall>u. r = Inr u \<longrightarrow> consistent u" by simp
        with r rw show ?thesis unfolding eq by blast
      qed
    qed
  qed
qed

lemma shrinkLoop_returns:
  "shrinkLoop P maxS (v\<lparr>scaleFactor := to_double (9 / 10)\<rparr>) = Some (shrink P maxS v)"
  using shrinkLoop_from [of "v\<lparr>scaleFactor := to_double (9 / 10)\<rparr>" 0 P maxS]
  by (auto simp: shrink_def)

lemma shrink_consistent:
  assumes "shrink P maxS v = Inr v'" and "consistent v"
  shows "consistent v'"
proof -
  from assms(2) have "consistent (v\<lparr>scaleFactor := to_double (9 / 10)\<rparr>)"
    by (simp add: consistent_def)
  with shrinkLoop_from [of "v\<lparr>scaleFactor := to_double (9 / 10)\<rparr>" 0 P maxS] assms(1)
  show ?thesis by (auto simp: shrink_def)
qed

lemma shrink_ok:
  "\<forall>w h q. CHR '','' \<in> set (toDataURL P w h q) \<Longrightarrow> \<exists>v'. shrink P maxS v = Inr v'"
  using shrinkLoop_from [of "v\<lparr>scaleFactor := to_double (9 / 10)\<rparr>" 0 P maxS]
  by (auto simp: shrink_def)

lemma probe_Inr:
  "probe P v = Inr v' \<Longrightarrow>
   attempts v' = attempts v + 1 \<and> consistent v'
   \<and> calls v' = calls v @ [Encode (width v) (height v) (quality v)]
   \<and> minQuality v' = minQuality v \<and> maxQuality v' = maxQuality v \<and> quality v' = quality v"
  by (auto simp: probe_def consistent_def split: sum.splits dest: canvasSize_Inr)

lemma probe_Inl:
  "probe P v = Inl (msg, cs) \<Longrightarrow> cs = calls v @ [Encode (width v) (height v) (quality v)]"
  by (auto simp: probe_def canvasSize_def Let_def split: sum.splits option.splits)

lemma probe_ok:
  "\<forall>w h q. CHR '','' \<in> set (toDataURL P w h q) \<Longrightarrow> \<exists>v'. probe P v = Inr v'"
  using canvasSize_ok [of P "width v" "height v" "quality v" "calls v"]
  by (auto simp: probe_def)

lemma step_unchanged:
  "attempts (stuckReset maxS (adjust minS maxS v)) = attempts v"
  "calls (stuckReset maxS (adjust minS maxS v)) = calls v"
  "dataUrl (stuckReset maxS (adjust minS maxS v)) = dataUrl v"
  "currentSize (stuckReset maxS (adjust minS maxS v)) = currentSize v"
  by (simp_all add: stuckReset_def adjust_def stuck_def)

lemma step_consistent:
  "consistent (stuckReset maxS (adjust minS maxS v)) = consistent v"
  by (simp add: consistent_def step_unchanged)

lemma bisect_consistent:
  "bisect P minS maxS v = Inr v' \<Longrightarrow> consistent v \<or> attempts v < maxAttempts \<Longrightarrow> consistent v'"
proof (induction P minS maxS v rule: bisect.induct)
  case (1 P minS maxS v)
  show ?case
  proof (cases "attempts v < maxAttempts")
    case False
    with "1.prems" show ?thesis by (auto simp: bisect.simps)
  next
    case True
    with "1.prems"(1) obtain p where p: "probe P v = Inr p"
      by (subst (asm) bisect.simps) (auto split: sum.splits)
    show ?thesis
    proof (cases "inRange minS maxS p")
      case True
      with \<open>attempts v < maxAttempts\<close> p "1.prems"(1) have "v' = p"
        by (subst (asm) bisect.simps) simp
      with probe_Inr [OF p] show ?thesis by simp
    next
      case False
      with True p "1.prems"(1)
      have "bisect P minS maxS (stuckReset maxS (adjust minS maxS p)) = Inr v'"
        by (subst (asm) bisect.simps) simp
      with "1.IH" [OF True p False] probe_Inr [OF p] show ?thesis
        by (simp add: step_consistent)
    qed
  qed
qed

lemma bisect_ok:
  "\<forall>w h q. CHR '','' \<in> set (toDataURL P w h q) \<Longrightarrow> \<exists>v'. bisect P minS maxS v = Inr v'"
proof (induction P minS maxS v rule: bisect.induct)
  case (1 P minS maxS v)
  show ?case
  proof (cases "attempts v < maxAttempts")
    case False
    then show ?thesis by (auto simp: bisect.simps)
  next
    case True
    from probe_ok [OF "1.prems"] obtain p where p: "probe P v = Inr p" by blast
    show ?thesis
    proof (cases "inRange minS maxS p")
      case True
      with \<open>attempts v < maxAttempts\<close> p show ?thesis
        by (subst bisect.simps) simp
    next
      case False
      from "1.IH" [OF True p False "1.prems"] obtain v' where
        "bisect P minS maxS (stuckReset maxS (adjust minS maxS p)) = Inr v'" by auto
      with False True p show ?thesis
        by (subst bisect.simps) simp
    qed
  qed
qed

lemma bisect_counts:
  "attempts v \<le> maxAttempts \<Longrightarrow>
   (case bisect P minS maxS v of
      Inl (msg, cs) \<Rightarrow> length cs + attempts v \<le> length (calls v) + maxAttempts
    | Inr v' \<Rightarrow> attempts v' \<le> maxAttempts
               \<and> length (calls v') + attempts v = length (calls v) + attempts v')"
proof (induction P minS maxS v rule: bisect.induct)
  case (1 P minS maxS v)
  show ?case
  proof (cases "attempts v < maxAttempts")
    case False
    with "1.prems" show ?thesis by (auto simp: bisect.simps)
  next
    case True
    show ?thesis
    proof (cases "probe P v")
      case (Inl e)
      obtain msg cs where e: "e = (msg, cs)" by (cases e)
      from Inl True have "bisect P minS maxS v = Inl (msg, cs)"
        by (subst bisect.simps) (simp add: e)
      moreover from probe_Inl Inl e have "length cs = length (calls v) + 1" by fastforce
      ultimately show ?thesis using True by simp
    next
      case (Inr p)
      note pr = probe_Inr [OF Inr]
      show ?thesis
      proof (cases "inRange minS maxS p")
        case True
        with \<open>attempts v < maxAttempts\<close> Inr have "bisect P minS maxS v = Inr p"
          by (subst bisect.simps) simp
        with pr \<open>attempts v < maxAttempts\<close> show ?thesis by simp
      next
        case False
        let ?s = "stuckReset maxS (adjust minS maxS p)"
        from False True Inr have eq: "bisect P minS maxS v = bisect P minS maxS ?s"
          by (subst bisect.simps) simp
        have "attempts ?s \<le> maxAttempts" using pr True by (simp add: step_unchanged)
        from "1.IH" [OF True Inr False this] show ?thesis
          unfolding eq using pr
          by (auto simp: step_unchanged split: sum.splits)
      qed
    qed
  qed
qed

lemma bisectNext_Some:
  "bisectNext P minS maxS a = Some b \<Longrightarrow>
   \<exists>p. attempts a < maxAttempts \<and> probe P a = Inr p \<and> \<not> inRange minS maxS p
       \<and> b = stuckReset maxS (adjust minS maxS p)"
  by (auto simp: bisectNext_def split: if_splits sum.splits)

lemma bisectNext_bisect:
  "bisectNext P minS maxS a = Some b \<Longrightarrow> bisect P minS maxS a = bisect P minS maxS b"
  by (subst bisect.simps) (auto dest!: bisectNext_Some)

lemma loopHead_bisect:
  "loopHead P minS maxS v n = Some a \<Longrightarrow> bisect P minS maxS v = bisect P minS maxS a"
  by (induction n arbitrary: a) (auto split: option.splits simp: bisectNext_bisect)

lemma bisectNext_attempts:
  "bisectNext P minS maxS a = Some b \<Longrightarrow> attempts b = attempts a + 1 \<and> attempts a < maxAttempts"
  by (auto dest!: bisectNext_Some probe_Inr simp: step_unchanged)

lemma loopHead_attempts:
  "loopHead P minS maxS v n = Some a \<Longrightarrow> attempts a = attempts v + n"
  by (induction n arbitrary: a) (auto split: option.splits dest: bisectNext_attempts)

lemma loopHead_cap:
  assumes "attempts v = 0"
  shows "loopHead P minS maxS v (Suc maxAttempts) = None"
proof (cases "loopHead P minS maxS v maxAttempts")
  case None
  then show ?thesis by simp
next
  case (Some a)
  then have "attempts a = maxAttempts" using assms loopHead_attempts by fastforce
  then have "bisectNext P minS maxS a = None" by (simp add: bisectNext_def)
  with Some show ?thesis by simp
qed

lemma bisectNext_bracket:
  assumes "bisectNext P minS maxS a = Some b" and "bracketed a"
  shows "bracketed b"
    and "\<not> stuck maxS b \<Longrightarrow> bracket b \<le> bracket a"
    and "stuck maxS b \<Longrightarrow> minQuality b = 1 / 100 \<and> maxQuality b = 7 / 10"
proof -
  from bisectNext_Some [OF assms(1)] obtain p where
    p: "probe P a = Inr p" and b: "b = stuckReset maxS (adjust minS maxS p)" by blast
  from probe_Inr [OF p] assms(2) have bp: "bracketed p" and eq: "bracket p = bracket a"
    by (simp_all add: bracketed_def bracket_def)
  have st: "stuck maxS b = stuck maxS p"
    by (simp add: b stuck_def step_unchanged)
  from bp show "bracketed b"
    by (auto simp: b bracketed_def stuckReset_def adjust_def)
  show "bracket b \<le> bracket a" if "\<not> stuck maxS b"
    using that bp unfolding st eq [symmetric]
    by (auto simp: b bracketed_def bracket_def stuckReset_def adjust_def stuck_def)
  show "minQuality b = 1 / 100 \<and> maxQuality b = 7 / 10" if "stuck maxS b"
    using that unfolding st by (auto simp: b stuckReset_def adjust_def stuck_def)
qed

lemma bracketed_bisectInit: "bracketed (bisectInit v)"
  by (simp add: bracketed_def bisectInit_def)

lemma loopHead_bracketed:
  "loopHead P minS maxS v n = Some a \<Longrightarrow> bracketed v \<Longrightarrow> bracketed a"
  by (induction n arbitrary: a) (auto split: option.splits dest: bisectNext_bracket(1))

section \<open>The whole run\<close>

lemma stage2_consistent:
  assumes "stage2 P minS maxS v = Inr v'" and "attempts v < maxAttempts"
  shows "consistent v'"
proof -
  from assms(1) obtain u where u: "bisect P minS maxS (bisectInit v) = Inr u"
    by (auto simp: stage2_def split: sum.splits)
  have "attempts (bisectInit v) < maxAttempts" using assms(2) by (simp add: bisectInit_def)
  with bisect_consistent [OF u] have cu: "consistent u" by simp
  show ?thesis
  proof (cases "currentSize u > maxS")
    case True
    with assms(1) u have "shrink P maxS u = Inr v'"
      by (simp add: stage2_def)
    then show ?thesis using cu by (rule shrink_consistent)
  next
    case False
    with assms(1) u cu show ?thesis by (simp add: stage2_def)
  qed
qed

lemma stage2_ok:
  assumes "\<forall>w h q. CHR '','' \<in> set (toDataURL P w h q)"
  shows "\<exists>v'. stage2 P minS maxS v = Inr v'"
proof -
  from bisect_ok [OF assms] obtain u where u: "bisect P minS maxS (bisectInit v) = Inr u"
    by blast
  from shrink_ok [OF assms] obtain s where "shrink P maxS u = Inr s"
    by blast
  with u show ?thesis by (simp add: stage2_def)
qed

lemma finish_reports: "consistent u \<Longrightarrow> finish st u = (st', cs) \<Longrightarrow> reports st st' u"
  by (auto simp: finish_def reports_def feedback_def)

lemma reduceOrKeep_reports:
  assumes "reduceOrKeep P st d k v = Inr (st', cs)"
    and "calculateImageSize d = Some k" and "attempts v < maxAttempts"
  shows "\<exists>u. reports st st' u"
proof (cases "k > maxSize st")
  case True
  with assms(1) obtain u where u: "stage2 P (minSize st) (maxSize st) v = Inr u"
    and f: "finish st u = (st', cs)"
    by (auto simp: reduceOrKeep_def split: sum.splits)
  from stage2_consistent [OF u assms(3)] f show ?thesis
    by (blast intro: finish_reports)
next
  case False
  with assms(1) have "finish st (v\<lparr>dataUrl := d, currentSize := k\<rparr>) = (st', cs)"
    by (simp add: reduceOrKeep_def)
  moreover have "consistent (v\<lparr>dataUrl := d, currentSize := k\<rparr>)"
    using assms(2) by (simp add: consistent_def)
  ultimately show ?thesis by (blast intro: finish_reports)
qed

lemma reduceOrKeep_ok:
  assumes "\<forall>w h q. CHR '','' \<in> set (toDataURL P w h q)"
  shows "\<exists>r. reduceOrKeep P st d k v = Inr r"
  using stage2_ok [OF assms, of "minSize st" "maxSize st" v]
  by (auto simp: reduceOrKeep_def)

lemma tryBlock_reports:
  assumes "tryBlock P st = Inr (st', cs)"
  shows "\<exists>u. reports st st' u"
proof -
  let ?v = "initialVars P"
  from assms have ctx: "getContext P"
    by (auto simp: tryBlock_def Let_def split: if_splits)
  with assms obtain d k cs0 where
    c: "canvasSize P (width ?v) (height ?v) 1 (calls ?v) = Inr (d, k, cs0)"
    by (auto simp: tryBlock_def Let_def split: sum.splits)
  note dk = canvasSize_consistent [OF c]
  have a0: "attempts ?v = 0" by (simp add: initialVars_def)
  show ?thesis
  proof (cases "k < minSize st")
    case False
    with assms ctx c have "reduceOrKeep P st d k (?v\<lparr>calls := cs0\<rparr>) = Inr (st', cs)"
      by (simp add: tryBlock_def Let_def)
    then show ?thesis
      by (rule reduceOrKeep_reports) (simp_all add: dk a0 maxAttempts_def)
  next
    case True
    let ?e = "?v\<lparr>calls := cs0\<rparr>"
    from True assms ctx c obtain u where u: "enlarge P (minSize st) ?e = Inr u"
      by (auto simp: tryBlock_def Let_def split: sum.splits)
    have "0 \<le> k" using dk by (rule calculateImageSize_nonneg)
    with True have "consistent ?e \<or> currentSize ?e < minSize st"
      by (simp add: initialVars_def)
    with enlarge_consistent [OF u] have cu: "consistent u" by blast
    have au: "attempts u = 0" using enlarge_attempts [OF u] a0 by simp
    show ?thesis
    proof (cases "currentSize u < minSize st")
      case True
      with \<open>k < minSize st\<close> assms ctx c u
      have "st' = st\<lparr>processedImage := Some (dataUrl u), processedSize := Some (currentSize u),
                      error := Some (belowMinMessage (minSize st) (currentSize u)),
                      loading := False\<rparr>"
        by (simp add: tryBlock_def Let_def)
      with cu True have "reports st st' u" by (simp add: reports_def feedback_def)
      then show ?thesis ..
    next
      case False
      with \<open>k < minSize st\<close> assms ctx c u
      have "reduceOrKeep P st d k u = Inr (st', cs)"
        by (simp add: tryBlock_def Let_def)
      then show ?thesis
        by (rule reduceOrKeep_reports) (simp_all add: dk au maxAttempts_def)
    qed
  qed
qed

lemma tryBlock_ok:
  assumes "\<forall>w h q. CHR '','' \<in> set (toDataURL P w h q)" and "getContext P"
  shows "\<exists>r. tryBlock P st = Inr r"
proof -
  let ?v = "initialVars P"
  from canvasSize_ok [of P "width ?v" "height ?v" 1 "calls ?v"] assms(1) obtain d k cs0 where
    c: "canvasSize P (width ?v) (height ?v) 1 (calls ?v) = Inr (d, k, cs0)" by blast
  from enlarge_ok [OF assms(1)] obtain u where
    u: "enlarge P (minSize st) (?v\<lparr>calls := cs0\<rparr>) = Inr u" by blast
  from reduceOrKeep_ok [OF assms(1)] obtain r1 where r1: "reduceOrKeep P st d k u = Inr r1"
    by blast
  from reduceOrKeep_ok [OF assms(1)] obtain r2 where
    r2: "reduceOrKeep P st d k (?v\<lparr>calls := cs0\<rparr>) = Inr r2" by blast
  from c u r1 r2 assms(2) show ?thesis
    by (simp add: tryBlock_def Let_def)
qed

lemma processImage_reports:
  assumes "\<not> rejected st" and "tryBlock P (st\<lparr>loading := True, error := None\<rparr>) = Inr (st', cs)"
  shows "\<exists>d k. processedImage (fst (processImage P st)) = Some d
             \<and> processedSize (fst (processImage P st)) = Some k
             \<and> calculateImageSize d = Some k
             \<and> error (fst (processImage P st)) =
                 (if k < minSize st then Some (belowMinMessage (minSize st) k)
                  else if k > maxSize st then Some (aboveMaxMessage (maxSize st) k)
                  else None)"
proof -
  from tryBlock_reports [OF assms(2)] obtain u where
    "reports (st\<lparr>loading := True, error := None\<rparr>) st' u" ..
  moreover have "fst (processImage P st) = st'\<lparr>loading := False\<rparr>"
    using assms by (auto simp: processImage_def rejected_def)
  ultimately show ?thesis
    by (auto simp: reports_def feedback_def consistent_def)
qed

lemma result_always_stored:
  assumes "\<not> rejected st" and "getContext P"
    and "\<forall>w h q. CHR '','' \<in> set (toDataURL P w h q)"
  shows "\<exists>d k. processedImage (fst (processImage P st)) = Some d
             \<and> processedSize (fst (processImage P st)) = Some k
             \<and> calculateImageSize d = Some k
             \<and> error (fst (processImage P st)) =
                 (if k < minSize st then Some (belowMinMessage (minSize st) k)
                  else if k > maxSize st then Some (aboveMaxMessage (maxSize st) k)
                  else None)"
proof -
  from tryBlock_ok [OF assms(3,2)] obtain st' cs where
    "tryBlock P (st\<lparr>loading := True, error := None\<rparr>) = Inr (st', cs)" by fastforce
  with assms(1) show ?thesis by (rule processImage_reports)
qed

lemma show_int_examples:
  "show_int 12 = ''12''" "show_int 10 = ''10''" "show_int 5 = ''5''" "show_int 0 = ''0''"
  by code_simp+

lemmas run_defs = processImage_def tryBlock_def reduceOrKeep_def stage2_def finish_def
  initialVars_def bisectInit_def canvasSize_def probe_def inRange_def adjust_def stuckReset_def
  stuck_def Math_floor_def maxAttempts_def belowMinMessage_def aboveMaxMessage_def
  demo_state_def demo_platform_def Let_def

lemma loopHead_numeral:
  "loopHead P minS maxS v (numeral n) =
     (case loopHead P minS maxS v (pred_numeral n) of
        None \<Rightarrow> None
      | Some v' \<Rightarrow> bisectNext P minS maxS v')"
  by (simp add: numeral_eq_Suc)

lemmas loop_defs = incompressible_def enc_constant_def bisectNext_def run_defs kb_url_size
  bracket_def loopHead_numeral

lemma calculateImageSize_no_pixels: "calculateImageSize ''data:,'' = Some 0"
  by code_simp

lemma enlarged_candidate_overwritten:
  assumes "\<not> rejected st" and "getContext P"
    and "calculateImageSize (toDataURL P (img_width P) (img_height P) 1) = Some k"
    and "k < minSize st"
    and "enlarge P (minSize st)
           ((initialVars P)\<lparr>calls := [Decode, Encode (img_width P) (img_height P) 1]\<rparr>) = Inr u"
    and "minSize st \<le> currentSize u"
  shows "fst (processImage P st) =
           st\<lparr>processedImage := Some (toDataURL P (img_width P) (img_height P) 1),
              processedSize := Some k,
              error := Some (belowMinMessage (minSize st) k), loading := False\<rparr>"
proof -
  have "\<not> maxSize st < k" using assms(1,4) by (simp add: rejected_def)
  with assms show ?thesis
    by (auto simp: processImage_def rejected_def tryBlock_def reduceOrKeep_def finish_def
        initialVars_def canvasSize_def Let_def)
qed

lemma reset_bracket:
  assumes "loopHead P minS maxS (bisectInit v) n = Some a"
    and "loopHead P minS maxS (bisectInit v) (Suc n) = Some b"
    and "stuck maxS b"
  shows "minQuality b = 1 / 100 \<and> maxQuality b = 7 / 10 \<and> bracket b = 69 / 100"
proof -
  from assms(1,2) have nx: "bisectNext P minS maxS a = Some b" by simp
  have "bracketed a" using loopHead_bracketed [OF assms(1) bracketed_bisectInit] .
  from bisectNext_bracket(3) [OF nx this assms(3)] show ?thesis by (simp add: bracket_def)
qed

section \<open>The claims\<close>

text \<open>
  Claim C1 says that when the baseline is below the minimum and an enlargement step
  reaches the minimum, the enlarged candidate is the result and no below-minimum message
  appears. The program does otherwise. A 100 by 100 photo whose JPEG takes 10 KB, with
  bounds 12 and 20: the first enlargement, to 120 by 120, takes 14 KB, which is within
  the bounds. The statement after the enlargement block then runs its \<open>else\<close> branch
  ("Original is within range, just use it"), so the result is the 10 KB baseline and the
  message says the minimum could not be reached.
\<close>

theorem enlarged_candidate_discarded:
  "processImage (demo_platform 100 100 enc_by_area) (demo_state 12 20) =
     ((demo_state 12 20)\<lparr>processedImage := Some (kb_url 10), processedSize := Some 10,
        error := Some ''Could not reach minimum size of 12KB. Best result: 10KB''\<rparr>,
      [Decode, Encode 100 100 1, Encode 120 120 1])
   \<and> calculateImageSize (enc_by_area 120 120 1) = Some 14"
  by (simp add: run_defs enc_by_area_def kb_url_size enlarge_def enlargeLoop.simps
      double_literals enlarge_steps enlarge_pixels show_int_examples)

text \<open>
  Claim C2 says that the estimator returns \<open>round(len(bytes) / 1024)\<close> for the true
  byte length of the encoding. The program computes the byte count as
  \<open>base64.length * 3 / 4\<close> ("Calculate size in bytes and convert to KB"), which counts
  the base64 padding as data. A JPEG of 49663 bytes has 66220 base64 characters, one of
  them padding; the program takes it for 49665 bytes and reports 49 KB, while
  \<open>round(49663 / 1024)\<close> is 48.
\<close>

theorem estimator_counts_padding:
  "calculateImageSize (jpeg_data_url (zero_bytes 49663)) = Some 49
   \<and> estimateKB (zero_bytes 49663) = 48
   \<and> length (base64_encode (zero_bytes 49663)) = 66220"
  by (simp add: jpeg_data_url_size' estimateKB_def Math_round_def length_zero_bytes
      base64_length)

text \<open>
  Claim C3 says that an unreachable range is reported by a message next to the best
  candidate found, and that an output image is always produced. The program does
  otherwise when the size stays above the maximum. A photo of 4000 by 3000 pixels that
  takes one byte per pixel at quality 1.0 and a tenth of that at quality 0.1, with bounds
  5 and 10: the forced shrink ("Don't go below 10% of original size") goes down to 400
  by 300 pixels, where the photo takes 13 KB. Its scale factor is then
  0.10000000000000014, which is above 0.1, so a ninth step runs, at scale \<open>1.39e-16\<close>
  on a canvas of 0 by 0. The stored image is the empty \<open>data:,\<close>, the stored size
  0 KB, and the message says that the minimum could not be reached ("Best result: 0KB").
\<close>

theorem forced_shrink_stores_empty_image:
  "fst (processImage large_photo (demo_state 5 10)) =
     (demo_state 5 10)\<lparr>processedImage := Some ''data:,'', processedSize := Some 0,
        error := Some ''Could not reach minimum size of 5KB. Best result: 0KB''\<rparr>
   \<and> drop 22 (snd (processImage large_photo (demo_state 5 10))) =
       [Encode 3200 2400 (1 / 10), Encode 2800 2100 (1 / 10), Encode 2400 1800 (1 / 10),
        Encode 2000 1500 (1 / 10), Encode 1600 1200 (1 / 10), Encode 1200 900 (1 / 10),
        Encode 800 600 (1 / 10), Encode 400 300 (1 / 10), Encode 0 0 (1 / 10)]
   \<and> calculateImageSize (toDataURL large_photo 400 300 (1 / 10)) = Some 13"
  by (simp add: large_photo_def enc_browser_def run_defs kb_url_size bisect.simps
      shrink_def shrinkLoop.simps double_literals shrink_steps shrink_pixels reset_pixels
      calculateImageSize_no_pixels show_int_examples)

text \<open>
  Claim C4: when \<open>min \<ge> max\<close>, \<open>processImage\<close> ends with an error message and
  without any call to the decoder or the encoder; for an uploaded image the message is
  the invalid-range one and nothing else in the state changes.
\<close>

theorem invalid_range_fails_first:
  "minSize st \<ge> maxSize st \<Longrightarrow>
   snd (processImage P st) = []
   \<and> error (fst (processImage P st)) \<noteq> None
   \<and> (imageFile st \<noteq> None \<and> preview st \<noteq> None \<and> preview st \<noteq> Some [] \<longrightarrow>
        processImage P st =
          (st\<lparr>error := Some ''Minimum size must be less than maximum size''\<rparr>, []))"
  by (auto simp: processImage_def)

theorem invalid_range_fails_first_witness:
  "minSize (demo_state 100 50) \<ge> maxSize (demo_state 100 50)
   \<and> imageFile (demo_state 100 50) \<noteq> None \<and> preview (demo_state 100 50) \<noteq> None
   \<and> preview (demo_state 100 50) \<noteq> Some []
   \<and> processImage incompressible (demo_state 100 50) =
       ((demo_state 100 50)\<lparr>error := Some ''Minimum size must be less than maximum size''\<rparr>, [])"
  using invalid_range_fails_first [of "demo_state 100 50" incompressible]
  by (simp add: demo_state_def)

text \<open>
  Claim C5: when the baseline encoding (native dimensions, quality 1.0) has a size within
  \<open>[min, max]\<close>, the result is that encoding and its size, no message is set, and the
  only platform calls are the decode and the one baseline encode.
\<close>

theorem baseline_within_range:
  assumes "imageFile st \<noteq> None" and "preview st \<noteq> None" and "preview st \<noteq> Some []"
    and "minSize st < maxSize st" and "getContext P"
    and "calculateImageSize (toDataURL P (img_width P) (img_height P) 1) = Some k"
    and "minSize st \<le> k" and "k \<le> maxSize st"
  shows "processImage P st =
           (st\<lparr>processedImage := Some (toDataURL P (img_width P) (img_height P) 1),
               processedSize := Some k, error := None, loading := False\<rparr>,
            [Decode, Encode (img_width P) (img_height P) 1])"
  using assms
  by (auto simp: processImage_def tryBlock_def reduceOrKeep_def finish_def initialVars_def
      canvasSize_def Let_def)

theorem baseline_within_range_witness:
  "imageFile (demo_state 50 100) \<noteq> None \<and> preview (demo_state 50 100) \<noteq> None
   \<and> preview (demo_state 50 100) \<noteq> Some []
   \<and> minSize (demo_state 50 100) < maxSize (demo_state 50 100)
   \<and> getContext (demo_platform 1000 1000 (enc_constant 75))
   \<and> calculateImageSize (toDataURL (demo_platform 1000 1000 (enc_constant 75)) 1000 1000 1) = Some 75
   \<and> minSize (demo_state 50 100) \<le> 75 \<and> 75 \<le> maxSize (demo_state 50 100)
   \<and> processImage (demo_platform 1000 1000 (enc_constant 75)) (demo_state 50 100) =
       ((demo_state 50 100)\<lparr>processedImage := Some (kb_url 75), processedSize := Some 75\<rparr>,
        [Decode, Encode 1000 1000 1])"
proof -
  let ?P = "demo_platform 1000 1000 (enc_constant 75)"
  let ?st = "demo_state 50 100"
  have h: "imageFile ?st \<noteq> None" "preview ?st \<noteq> None" "preview ?st \<noteq> Some []"
    "minSize ?st < maxSize ?st" "getContext ?P"
    "calculateImageSize (toDataURL ?P (img_width ?P) (img_height ?P) 1) = Some 75"
    "minSize ?st \<le> 75" "75 \<le> maxSize ?st"
    by (simp_all add: demo_state_def demo_platform_def enc_constant_def kb_url_size)
  from baseline_within_range [OF h] h show ?thesis
    by (simp add: demo_state_def demo_platform_def enc_constant_def)
qed

text \<open>
  Claim C6, as amended. From one loop test of the quality bisection to the next, the
  width \<open>maxQuality - minQuality\<close> does not grow, provided the stuck-detection rule did
  not fire in the iteration between them.
\<close>

theorem bracket_narrows_without_reset:
  assumes "loopHead P minS maxS (bisectInit v) n = Some a"
    and "loopHead P minS maxS (bisectInit v) (Suc n) = Some b"
    and "\<not> stuck maxS b"
  shows "bracket b \<le> bracket a"
proof -
  from assms(1,2) have nx: "bisectNext P minS maxS a = Some b" by simp
  have "bracketed a" using loopHead_bracketed [OF assms(1) bracketed_bisectInit] .
  from bisectNext_bracket(2) [OF nx this assms(3)] show ?thesis .
qed

theorem bracket_narrows_without_reset_witness:
  "\<exists>a b. loopHead incompressible 50 100 (bisectInit (initialVars incompressible)) 3 = Some a
      \<and> loopHead incompressible 50 100 (bisectInit (initialVars incompressible)) (Suc 3) = Some b
      \<and> \<not> stuck 100 b
      \<and> bracket a = 699 / 4000
      \<and> bracket b = 699 / 8000
      \<and> bracket b \<le> bracket a"
proof -
  let ?v = "bisectInit (initialVars incompressible)"
  obtain a where a: "loopHead incompressible 50 100 ?v 3 = Some a"
    and wa: "bracket a = 699 / 4000"
    by (simp add: loop_defs)
  obtain b where b: "loopHead incompressible 50 100 ?v (Suc 3) = Some b"
    and wb: "bracket b = 699 / 8000" and sb: "\<not> stuck 100 b"
    by (simp add: loop_defs)
  from bracket_narrows_without_reset [OF a b sb] have "bracket b \<le> bracket a" .
  with a b wa wb sb show ?thesis by blast
qed

text \<open>
  Claim C6 as stated includes the iterations in which the rule fires, and fails there.
  With an image that stays at 300 KB and a maximum of 100 KB, the width after ten
  iterations is \<open>0.699 / 512\<close>; the eleventh iteration fires the rule, which resets the
  interval to \<open>[0.01, 0.7]\<close>, of width 0.69.
\<close>

theorem bracket_widens_on_reset_counterexample:
  "map_option bracket (loopHead incompressible 50 100 (bisectInit (initialVars incompressible)) 10)
     = Some (699 / 512000)
   \<and> map_option bracket (loopHead incompressible 50 100 (bisectInit (initialVars incompressible)) 11)
     = Some (69 / 100)"
  by (simp add: loop_defs)

text \<open>
  Claim C7 says that every encode uses a quality in \<open>(0, 1]\<close>. The program starts the
  bisection with \<open>maxQuality = 100.00\<close>, so one too-small outcome moves the quality to
  \<open>(0.7 + 100) / 2 = 50.35\<close>. A photo of 300 KB at quality 1.0 and 55 KB at quality 0.7,
  with bounds 60 and 120: the third encode is made at quality 50.35.
\<close>

theorem quality_above_one:
  "processImage (demo_platform 1000 1000 enc_by_quality) (demo_state 60 120) =
     ((demo_state 60 120)\<lparr>processedImage := Some (kb_url 110), processedSize := Some 110\<rparr>,
      [Decode, Encode 1000 1000 1, Encode 1000 1000 (7 / 10), Encode 1000 1000 (1007 / 20)])"
  by (simp add: run_defs enc_by_quality_def kb_url_size bisect.simps)

text \<open>
  Claim C8: entered with \<open>attempts = 0\<close>, the bisection loop ends after at most
  \<open>maxAttempts = 20\<close> iterations, each making one encode call: the final \<open>attempts\<close> is
  at most 20 and equals the number of encode calls the loop added, and there is no
  twenty-first further iteration. (\<open>bisect\<close> is a total function: its termination is
  proved with its definition.)
\<close>

theorem bisect_bounded:
  assumes "attempts v = 0"
  shows "(case bisect P minS maxS (bisectInit v) of
            Inl (msg, cs) \<Rightarrow> length cs \<le> length (calls v) + maxAttempts
          | Inr v' \<Rightarrow> attempts v' \<le> maxAttempts
                     \<and> length (calls v') = length (calls v) + attempts v')
       \<and> loopHead P minS maxS (bisectInit v) (Suc maxAttempts) = None"
proof
  have "attempts (bisectInit v) \<le> maxAttempts" using assms by (simp add: bisectInit_def)
  from bisect_counts [OF this, of P minS maxS] assms
  show "case bisect P minS maxS (bisectInit v) of
            Inl (msg, cs) \<Rightarrow> length cs \<le> length (calls v) + maxAttempts
          | Inr v' \<Rightarrow> attempts v' \<le> maxAttempts
                     \<and> length (calls v') = length (calls v) + attempts v'"
    by (auto simp: bisectInit_def split: sum.splits)
next
  show "loopHead P minS maxS (bisectInit v) (Suc maxAttempts) = None"
    using assms by (intro loopHead_cap) (simp add: bisectInit_def)
qed

theorem bisect_bounded_witness:
  "attempts (initialVars incompressible) = 0
   \<and> (case bisect incompressible 50 100 (bisectInit (initialVars incompressible)) of
         Inl (msg, cs) \<Rightarrow> length cs \<le> length (calls (initialVars incompressible)) + maxAttempts
       | Inr v' \<Rightarrow> attempts v' \<le> maxAttempts
                  \<and> length (calls v') = length (calls (initialVars incompressible)) + attempts v')
   \<and> loopHead incompressible 50 100 (bisectInit (initialVars incompressible)) (Suc maxAttempts) = None"
proof -
  have "attempts (initialVars incompressible) = 0" by (simp add: initialVars_def)
  from this bisect_bounded [OF this, of incompressible 50 100] show ?thesis by simp
qed

text \<open>
  Claim C9: whenever a run passes the two guards and ends without a thrown error, the
  stored \<open>processedSize\<close> is what \<open>calculateImageSize\<close> returns for the stored
  \<open>processedImage\<close>, on every path.
\<close>

theorem reported_size_remeasures:
  assumes "\<not> rejected st" and "tryBlock P (st\<lparr>loading := True, error := None\<rparr>) = Inr r"
  shows "\<exists>d k. processedImage (fst (processImage P st)) = Some d
             \<and> processedSize (fst (processImage P st)) = Some k
             \<and> calculateImageSize d = Some k"
proof -
  obtain st' cs where "r = (st', cs)" by (cases r)
  with processImage_reports [OF assms(1), of P st' cs] assms(2) show ?thesis by blast
qed

theorem reported_size_remeasures_witness:
  "\<not> rejected (demo_state 12 20)
   \<and> (\<exists>r. tryBlock (demo_platform 100 100 enc_by_area)
              ((demo_state 12 20)\<lparr>loading := True, error := None\<rparr>) = Inr r)
   \<and> (\<exists>d k. processedImage (fst (processImage (demo_platform 100 100 enc_by_area)
                                    (demo_state 12 20))) = Some d
          \<and> processedSize (fst (processImage (demo_platform 100 100 enc_by_area)
                                    (demo_state 12 20))) = Some k
          \<and> calculateImageSize d = Some k)"
proof -
  let ?P = "demo_platform 100 100 enc_by_area"
  let ?st = "demo_state 12 20"
  have nr: "\<not> rejected ?st" by (simp add: rejected_def demo_state_def)
  have "\<forall>w h q. CHR '','' \<in> set (toDataURL ?P w h q)"
    by (simp add: demo_platform_def enc_by_area_def kb_url_comma)
  moreover have "getContext ?P" by (simp add: demo_platform_def)
  ultimately obtain r where r: "tryBlock ?P (?st\<lparr>loading := True, error := None\<rparr>) = Inr r"
    using tryBlock_ok by blast
  from reported_size_remeasures [OF nr r] nr r show ?thesis by blast
qed

text \<open>
  Claim C10: when no image is uploaded or \<open>min \<ge> max\<close>, \<open>processImage\<close> changes the
  error message and nothing else: \<open>processedImage\<close> and \<open>processedSize\<close> keep their
  values, and no decoder or encoder call is made.
\<close>

theorem rejection_leaves_result:
  "rejected st \<Longrightarrow>
   processImage P st =
     (st\<lparr>error := Some (if imageFile st = None \<or> preview st = None \<or> preview st = Some []
                          then ''Please upload an image first''
                          else ''Minimum size must be less than maximum size'')\<rparr>, [])
   \<and> processedImage (fst (processImage P st)) = processedImage st
   \<and> processedSize (fst (processImage P st)) = processedSize st"
  by (auto simp: processImage_def rejected_def)

theorem rejection_leaves_result_witness:
  "rejected ((demo_state 50 100)\<lparr>imageFile := None, processedImage := Some (kb_url 75),
                                 processedSize := Some 75\<rparr>)
   \<and> processImage incompressible
        ((demo_state 50 100)\<lparr>imageFile := None, processedImage := Some (kb_url 75),
                               processedSize := Some 75\<rparr>) =
       ((demo_state 50 100)\<lparr>imageFile := None, processedImage := Some (kb_url 75),
                              processedSize := Some 75,
                              error := Some ''Please upload an image first''\<rparr>, [])"
  using rejection_leaves_result [of "(demo_state 50 100)\<lparr>imageFile := None,
      processedImage := Some (kb_url 75), processedSize := Some 75\<rparr>" incompressible]
  by (simp add: rejected_def demo_state_def)

end
